theory Spec2Isabelle
  imports Main "HOL-Library.Sublist"
begin

section \<open>The update-notification widget (src/components/UpdateNotification.tsx)\<close>

text \<open>
  The component is a React function component: five \<open>useState\<close> cells, one \<open>useRef\<close> latch, an
  asynchronous routine \<open>checkAndDownload\<close> started from a mount effect, two timers and three
  click handlers. The embedding keeps the component's local state in a record, threads it
  through every handler, and records what the component does to the outside world (the command
  bridge, the parent's callback, the console, the toast sink, the relaunch primitive) as a
  list of effects in the order the calls are made. Timers are a queue of (due time, callback)
  pairs over a clock counted in milliseconds.
\<close>

subsection \<open>Data\<close>

record UpdateInfo =
  has_update :: bool
  latest_version :: string
  current_version :: string
  download_url :: string
  source :: "string option"

datatype UpdateState = St_checking | St_downloading | St_ready | St_error | St_none

text \<open>
  A thrown value: an \<open>Error\<close> object with its \<open>message\<close>, or any other value, carried as the
  string that \<open>String(error)\<close> gives for it.
\<close>

datatype thrown = ErrorObject string | OtherValue string

text \<open>How an awaited promise settles.\<close>

datatype 'a settled = Fulfilled 'a | Rejected thrown

text \<open>
  The calls that leave the component: \<open>invoke(cmd)\<close>, the parent's \<open>onClose()\<close>,
  \<open>console.warn(msg)\<close>, \<open>console.error(label, msg)\<close>, \<open>console.error(label, error)\<close>,
  \<open>showToast(msg, kind)\<close>, \<open>tauriRelaunch()\<close>, and the runtime's report of an async routine
  whose promise rejects with nobody awaiting it.
\<close>

datatype effect =
    Invoke string
  | OnClose
  | ConsoleWarn string
  | ConsoleErrorMsg string string
  | ConsoleErrorObj string thrown
  | ShowToast string string
  | TauriRelaunch
  | UnhandledRejection thrown

text \<open>The two callbacks handed to \<open>setTimeout\<close>: \<open>() => setIsVisible(true)\<close> and \<open>onClose\<close>.\<close>

datatype callback = SetIsVisibleTrue | CallOnClose

record widget =
  updateInfo :: "UpdateInfo option"
  isVisible :: bool
  isClosing :: bool
  updateState :: UpdateState
  downloadProgress :: nat
  downloadStarted :: bool
  awaiting :: nat
  now :: nat
  timers :: "(nat \<times> callback) list"
  effects :: "effect list"

text \<open>
  What the component reads from its surroundings: the environment predicate \<open>isTauri()\<close> and
  the translation function \<open>t\<close> of \<open>useTranslation\<close>.
\<close>

record host =
  isTauri :: bool
  translate :: "string \<Rightarrow> string"

subsection \<open>Initial state and primitive operations\<close>

definition initial :: widget where
  "initial = \<lparr> updateInfo = None, isVisible = False, isClosing = False,
               updateState = St_checking, downloadProgress = 0, downloadStarted = False,
               awaiting = 0, now = 0, timers = [], effects = [] \<rparr>"

definition emit :: "effect \<Rightarrow> widget \<Rightarrow> widget" where
  "emit e w = w\<lparr>effects := effects w @ [e]\<rparr>"

definition onClose :: "widget \<Rightarrow> widget" where
  "onClose w = emit OnClose w"

definition showToast :: "string \<Rightarrow> string \<Rightarrow> widget \<Rightarrow> widget" where
  "showToast msg kind w = emit (ShowToast msg kind) w"

definition setTimeout :: "callback \<Rightarrow> nat \<Rightarrow> widget \<Rightarrow> widget" where
  "setTimeout cb delay w = w\<lparr>timers := timers w @ [(now w + delay, cb)]\<rparr>"

text \<open>JavaScript's \<open>a || b\<close> on strings: the empty string is falsy.\<close>

definition or_else :: "string \<Rightarrow> string \<Rightarrow> string" where
  "or_else a b = (if a = [] then b else a)"

subsection \<open>handleClose (lines 97-101)\<close>

definition handleClose :: "widget \<Rightarrow> widget" where
  "handleClose w =
     setTimeout CallOnClose 400 (w\<lparr>isClosing := True, isVisible := False\<rparr>)"

subsection \<open>checkAndDownload (lines 38-87)\<close>

text \<open>
  The routine runs synchronously up to its \<open>await\<close>: it calls the command bridge and
  suspends. \<open>awaiting\<close> counts the suspended invocations. The calls the routine makes into
  its surroundings (\<open>onClose\<close>, \<open>isTauri\<close>, \<open>t\<close>, \<open>showToast\<close>, the console) are taken to
  return normally, and a fulfilled check to carry an \<open>UpdateInfo\<close>, as its type says; the one
  throw in the \<open>try\<close> is the awaited call rejecting.
\<close>

definition checkAndDownload :: "widget \<Rightarrow> widget" where
  "checkAndDownload w = (emit (Invoke ''check_for_updates'') w)\<lparr>awaiting := awaiting w + 1\<rparr>"

text \<open>Line 63: \<open>const update = null\<close>.\<close>

definition update :: "unit option" where
  "update = None"

text \<open>Line 79: \<open>error instanceof Error ? error.message : String(error)\<close>.\<close>

fun errorMsg_of :: "thrown \<Rightarrow> string" where
  "errorMsg_of (ErrorObject m) = m"
| "errorMsg_of (OtherValue s) = s"

text \<open>
  The body of the \<open>try\<close> once the awaited call has settled. \<open>Inl (e, w')\<close>: the block threw \<open>e\<close>
  having brought the state to \<open>w'\<close>; \<open>Inr w'\<close>: it completed (by \<open>return\<close> or by reaching its
  end) in state \<open>w'\<close>.
\<close>

definition try_block :: "host \<Rightarrow> UpdateInfo settled \<Rightarrow> widget \<Rightarrow> (thrown \<times> widget) + widget" where
  "try_block h res w =
     (case res of
        Rejected e \<Rightarrow> Inl (e, w)
      | Fulfilled info \<Rightarrow>
          if \<not> has_update info then Inr (onClose w)
          else
            let w1 = w\<lparr>updateInfo := Some info\<rparr> in
            if \<not> isTauri h then
              Inr (onClose (emit (ConsoleWarn ''Auto update is only available in Tauri environment'') w1))
            else if downloadStarted w1 then Inr w1
            else
              let w2 = w1\<lparr>downloadStarted := True\<rparr>;
                  w3 = w2\<lparr>updateState := St_downloading\<rparr>;
                  w4 = setTimeout SetIsVisibleTrue 100 w3
              in (case update of
                    None \<Rightarrow>
                      Inr (handleClose
                            (showToast
                               (or_else (translate h ''update_notification.toast.not_ready'')
                                        ''Auto-update is disabled'')
                               ''info''
                               (emit (ConsoleWarn ''Native updater disabled or returned null'') w4)))
                  | Some _ \<Rightarrow>
                      Inr (w4\<lparr>updateState := St_ready, downloadProgress := 100\<rparr>)))"

definition catch_block :: "host \<Rightarrow> thrown \<Rightarrow> widget \<Rightarrow> widget" where
  "catch_block h e w =
     (let errorMsg = errorMsg_of e;
          w1 = emit (ConsoleErrorMsg ''Auto update failed:'' errorMsg) w;
          w2 = w1\<lparr>updateState := St_error\<rparr>
      in showToast (translate h ''update_notification.toast.failed'' @ '': '' @ errorMsg)
                   ''error'' w2)"

text \<open>
  The continuation of \<open>checkAndDownload\<close> after the \<open>await\<close>: the \<open>try\<close> body, and the \<open>catch\<close>
  handler on whatever it threw. The result says how the routine's own promise settles:
  \<open>Inr\<close> fulfilled, \<open>Inl\<close> rejected.
\<close>

definition checkAndDownload_resume ::
  "host \<Rightarrow> UpdateInfo settled \<Rightarrow> widget \<Rightarrow> (thrown \<times> widget) + widget" where
  "checkAndDownload_resume h res w =
     (case try_block h res w of
        Inr w' \<Rightarrow> Inr w'
      | Inl (e, w') \<Rightarrow> Inr (catch_block h e w'))"

subsection \<open>handleRestart (lines 89-95)\<close>

definition handleRestart :: "thrown option \<Rightarrow> widget \<Rightarrow> widget" where
  "handleRestart failure w =
     (let w1 = emit TauriRelaunch w in
      case failure of
        None \<Rightarrow> w1
      | Some e \<Rightarrow> emit (ConsoleErrorObj ''Relaunch failed:'' e) w1)"

subsection \<open>The retry button's handler (lines 237-242)\<close>

definition retry_onClick :: "widget \<Rightarrow> widget" where
  "retry_onClick w =
     checkAndDownload (w\<lparr>downloadStarted := False, updateState := St_checking, downloadProgress := 0\<rparr>)"

subsection \<open>Rendering (lines 103-261)\<close>

text \<open>
  What the returned element tree depends on: whether the outer box carries the visible
  classes, which icon and title, the version line, the close button, the status text, the
  progress bar, the restart/later pair and the retry button. \<open>None\<close> is \<open>return null\<close>.
\<close>

record view =
  shown :: bool
  check_icon :: bool
  title :: string
  version :: "string option"
  close_button :: bool
  status :: string
  progress_bar :: "nat option"
  restart_buttons :: bool
  retry_button :: bool

definition render :: "host \<Rightarrow> widget \<Rightarrow> view option" where
  "render h w =
     (if updateState w = St_none then None
      else Some \<lparr>
        shown = (isVisible w \<and> \<not> isClosing w),
        check_icon = (updateState w = St_ready),
        title = (if updateState w = St_ready then translate h ''update_notification.ready''
                 else translate h ''update_notification.title''),
        version = map_option (\<lambda>info. ''v'' @ latest_version info) (updateInfo w),
        close_button = (updateState w = St_error \<or> updateState w = St_ready),
        status =
          (if updateState w = St_downloading then translate h ''update_notification.downloading'' else [])
          @ (if updateState w = St_ready then translate h ''update_notification.restart_prompt'' else [])
          @ (if updateState w = St_error then translate h ''update_notification.toast.failed'' else []),
        progress_bar = (if updateState w = St_downloading then Some (downloadProgress w) else None),
        restart_buttons = (updateState w = St_ready),
        retry_button = (updateState w = St_error) \<rparr>)"

subsection \<open>Timers\<close>

definition fire :: "callback \<Rightarrow> widget \<Rightarrow> widget" where
  "fire cb w = (case cb of SetIsVisibleTrue \<Rightarrow> w\<lparr>isVisible := True\<rparr> | CallOnClose \<Rightarrow> onClose w)"

definition is_due :: "nat \<Rightarrow> nat \<times> callback \<Rightarrow> bool" where
  "is_due t' tm = (fst tm \<le> t')"

text \<open>
  Letting \<open>d\<close> milliseconds pass: the timers that have come due run in the order of their due
  times (those due at the same time in the order they were set), the others stay queued.
\<close>

definition elapse :: "nat \<Rightarrow> widget \<Rightarrow> widget" where
  "elapse d w =
     (let t' = now w + d;
          due = sort_key fst (filter (is_due t') (timers w));
          rest = filter (\<lambda>tm. \<not> is_due t' tm) (timers w)
      in fold fire (map snd due) (w\<lparr>now := t', timers := rest\<rparr>))"

subsection \<open>The component's life as a run of events\<close>

text \<open>
  After mount the component is driven by: the pending check call settling, time passing, and
  clicks on the buttons that the current render shows. The close handler hangs on the header's
  close button and on the "later" button; the restart click carries how \<open>tauriRelaunch()\<close>
  settled (\<open>None\<close>: it did not fail).
\<close>

datatype event =
    Settle "UpdateInfo settled"
  | Elapse nat
  | ClickClose
  | ClickRetry
  | ClickRestart "thrown option"

definition mount :: widget where
  "mount = checkAndDownload initial"

fun step :: "host \<Rightarrow> event \<Rightarrow> widget \<Rightarrow> widget option" where
  "step h (Settle res) w =
     (if awaiting w = 0 then None
      else (case checkAndDownload_resume h res (w\<lparr>awaiting := awaiting w - 1\<rparr>) of
              Inr w' \<Rightarrow> Some w'
            | Inl (e, w') \<Rightarrow> Some (emit (UnhandledRejection e) w')))"
| "step h (Elapse d) w = Some (elapse d w)"
| "step h ClickClose w =
     (case render h w of
        None \<Rightarrow> None
      | Some v \<Rightarrow> if close_button v \<or> restart_buttons v then Some (handleClose w) else None)"
| "step h ClickRetry w =
     (case render h w of
        None \<Rightarrow> None
      | Some v \<Rightarrow> if retry_button v then Some (retry_onClick w) else None)"
| "step h (ClickRestart failure) w =
     (case render h w of
        None \<Rightarrow> None
      | Some v \<Rightarrow> if restart_buttons v then Some (handleRestart failure w) else None)"

fun run :: "host \<Rightarrow> widget \<Rightarrow> event list \<Rightarrow> widget option" where
  "run h w [] = Some w"
| "run h w (ev # evs) = (case step h ev w of None \<Rightarrow> None | Some w' \<Rightarrow> run h w' evs)"

text \<open>Observations on the effect list.\<close>

definition closes :: "widget \<Rightarrow> nat" where
  "closes w = length (filter (\<lambda>e. e = OnClose) (effects w))"

definition checks :: "widget \<Rightarrow> nat" where
  "checks w = length (filter (\<lambda>e. e = Invoke ''check_for_updates'') (effects w))"

fun is_toast :: "effect \<Rightarrow> bool" where
  "is_toast (ShowToast m k) = True"
| "is_toast _ = False"

definition toasts :: "widget \<Rightarrow> effect list" where
  "toasts w = filter is_toast (effects w)"

text \<open>
  Observations on the event list: the checks that resolved with an \<open>UpdateInfo\<close>, the close
  clicks, and the milliseconds that have passed since the last of either (since mount when
  there is none).
\<close>

fun resolves :: "event \<Rightarrow> bool" where
  "resolves (Settle (Fulfilled info)) = True"
| "resolves _ = False"

definition resolved :: "event list \<Rightarrow> nat" where
  "resolved evs = length (filter resolves evs)"

definition close_clicks :: "event list \<Rightarrow> nat" where
  "close_clicks evs = length (filter (\<lambda>ev. ev = ClickClose) evs)"

fun since_close_step :: "nat \<Rightarrow> event \<Rightarrow> nat" where
  "since_close_step acc (Elapse d) = acc + d"
| "since_close_step acc (Settle (Fulfilled info)) = 0"
| "since_close_step acc ClickClose = 0"
| "since_close_step acc _ = acc"

definition since_close :: "event list \<Rightarrow> nat" where
  "since_close evs = foldl since_close_step 0 evs"

subsection \<open>Concrete hosts and check results\<close>

text \<open>
  A native host and a browser host, both with a translation function that returns the key
  itself, and two check results.
\<close>

definition tauri_host :: host where
  "tauri_host = \<lparr> isTauri = True, translate = id \<rparr>"

definition browser_host :: host where
  "browser_host = \<lparr> isTauri = False, translate = id \<rparr>"

definition update_available :: UpdateInfo where
  "update_available = \<lparr> has_update = True, latest_version = ''4.1.0'',
      current_version = ''4.0.0'', download_url = ''https://example.invalid/app'', source = None \<rparr>"

definition up_to_date :: UpdateInfo where
  "up_to_date = \<lparr> has_update = False, latest_version = ''4.0.0'',
      current_version = ''4.0.0'', download_url = [], source = None \<rparr>"

subsection \<open>Invariants of the runs\<close>

text \<open>The restart prompt is out of reach: the state is never ready, the progress stays 0.\<close>

definition never_ready :: "widget \<Rightarrow> bool" where
  "never_ready w = (updateState w \<noteq> St_ready \<and> updateState w \<noteq> St_none
                     \<and> downloadProgress w = 0 \<and> TauriRelaunch \<notin> set (effects w))"

definition show_pending :: "widget \<Rightarrow> bool" where
  "show_pending w = (SetIsVisibleTrue \<in> snd ` set (timers w))"

text \<open>
  At most one check is in flight, and only in state checking; the latch is set only on the
  download path, which is also the only path that schedules the entrance timer.
\<close>

definition latch_inv :: "widget \<Rightarrow> bool" where
  "latch_inv w =
     (awaiting w \<le> 1
      \<and> (awaiting w = 1 \<longrightarrow> updateState w = St_checking)
      \<and> (downloadStarted w \<longrightarrow> updateState w = St_downloading \<and> awaiting w = 0)
      \<and> (isVisible w \<or> show_pending w \<longrightarrow> downloadStarted w))"

text \<open>
  After a check that ends in the direct \<open>onClose()\<close>: nothing is pending, the state is still
  checking and the entrance timer was never set.
\<close>

definition dormant :: "widget \<Rightarrow> bool" where
  "dormant w = (awaiting w = 0 \<and> updateState w = St_checking \<and> \<not> isVisible w \<and> \<not> show_pending w)"

text \<open>
  The calls of \<open>onClose\<close> made and those still queued add up to the resolved checks plus the
  close clicks; every queued timer is due later than now and within 400 ms of the last of
  those events; and once a check has resolved nothing is pending and the state is checking
  or downloading.
\<close>

definition close_pending :: "widget \<Rightarrow> nat" where
  "close_pending w = length (filter (\<lambda>tm. snd tm = CallOnClose) (timers w))"

definition close_inv :: "event list \<Rightarrow> widget \<Rightarrow> bool" where
  "close_inv evs w =
     (closes w + close_pending w = resolved evs + close_clicks evs
      \<and> list_all (\<lambda>tm. now w < fst tm \<and> fst tm + since_close evs \<le> now w + 400) (timers w)
      \<and> (resolved evs = 0
          \<or> resolved evs = 1 \<and> awaiting w = 0
             \<and> (updateState w = St_checking \<or> updateState w = St_downloading)))"


section \<open>Helper facts\<close>

lemmas prim_defs = emit_def onClose_def showToast_def setTimeout_def handleClose_def
  checkAndDownload_def

lemmas flow_defs = checkAndDownload_resume_def try_block_def catch_block_def update_def
  or_else_def Let_def

lemmas example_defs = tauri_host_def browser_host_def update_available_def up_to_date_def
  mount_def initial_def

lemmas eval_defs = example_defs flow_defs prim_defs render_def retry_onClick_def
  elapse_def fire_def is_due_def closes_def checks_def toasts_def

lemmas count_defs = resolved_def close_clicks_def since_close_def close_pending_def

subsection \<open>Firing timers\<close>

lemma fold_fire_fields:
  "updateState (fold fire cbs w) = updateState w"
  "downloadProgress (fold fire cbs w) = downloadProgress w"
  "downloadStarted (fold fire cbs w) = downloadStarted w"
  "awaiting (fold fire cbs w) = awaiting w"
  "now (fold fire cbs w) = now w"
  "timers (fold fire cbs w) = timers w"
  "updateInfo (fold fire cbs w) = updateInfo w"
  "isClosing (fold fire cbs w) = isClosing w"
  by (induction cbs arbitrary: w; simp add: fire_def prim_defs split: callback.splits)+

lemma fold_fire_isVisible:
  "isVisible (fold fire cbs w) = (isVisible w \<or> SetIsVisibleTrue \<in> set cbs)"
  by (induction cbs arbitrary: w) (auto simp: fire_def prim_defs split: callback.splits)

lemma fold_fire_effects:
  "effects (fold fire cbs w) =
     effects w @ replicate (length (filter (\<lambda>c. c = CallOnClose) cbs)) OnClose"
  by (induction cbs arbitrary: w)
     (auto simp: fire_def prim_defs replicate_append_same split: callback.splits)

lemma elapse_fields:
  "updateState (elapse d w) = updateState w"
  "downloadProgress (elapse d w) = downloadProgress w"
  "downloadStarted (elapse d w) = downloadStarted w"
  "awaiting (elapse d w) = awaiting w"
  "now (elapse d w) = now w + d"
  "timers (elapse d w) = filter (\<lambda>tm. \<not> is_due (now w + d) tm) (timers w)"
  "updateInfo (elapse d w) = updateInfo w"
  "isClosing (elapse d w) = isClosing w"
  by (simp_all add: elapse_def Let_def fold_fire_fields)

lemma elapse_isVisible:
  "isVisible (elapse d w) =
     (isVisible w \<or> (\<exists>tm \<in> set (timers w). is_due (now w + d) tm \<and> snd tm = SetIsVisibleTrue))"
  by (auto simp: elapse_def Let_def fold_fire_isVisible image_iff)

lemma length_filter_sort:
  "length (filter P (sort_key fst xs)) = length (filter P xs)"
  by (simp add: filter_sort)

lemma elapse_effects:
  "effects (elapse d w) =
     effects w @ replicate (length (filter (\<lambda>tm. snd tm = CallOnClose)
                                     (filter (is_due (now w + d)) (timers w)))) OnClose"
proof -
  let ?due = "sort_key fst (filter (is_due (now w + d)) (timers w))"
  have "length (filter (\<lambda>c. c = CallOnClose) (map snd ?due))
          = length (filter (\<lambda>tm. snd tm = CallOnClose) ?due)"
    by (simp add: filter_map comp_def)
  also have "\<dots> = length (filter (\<lambda>tm. snd tm = CallOnClose)
                          (filter (is_due (now w + d)) (timers w)))"
    by (rule length_filter_sort)
  finally show ?thesis
    by (simp only: elapse_def Let_def fold_fire_effects) simp
qed

lemma closes_elapse:
  "closes (elapse d w) =
     closes w + length (filter (\<lambda>tm. snd tm = CallOnClose) (filter (is_due (now w + d)) (timers w)))"
  by (simp add: closes_def elapse_effects)

lemma toasts_elapse: "toasts (elapse d w) = toasts w"
  by (simp add: toasts_def elapse_effects)

lemma show_pending_elapse: "show_pending (elapse d w) \<Longrightarrow> show_pending w"
  by (auto simp: show_pending_def elapse_fields)

lemma isVisible_elapse_cases: "isVisible (elapse d w) \<Longrightarrow> isVisible w \<or> show_pending w"
  by (force simp: show_pending_def elapse_isVisible)

lemma entrance_after_delay:
  assumes "timers w' = ts @ [(n + 100, SetIsVisibleTrue), (n + 400, CallOnClose)]"
    and "now w' = n" "\<not> isVisible w'" "\<forall>tm \<in> set ts. snd tm \<noteq> SetIsVisibleTrue"
  shows "isVisible (elapse d w') = (100 \<le> d)"
  using assms by (auto simp: elapse_isVisible is_due_def)

lemma length_filter_split:
  "length (filter P (filter Q xs)) + length (filter P (filter (\<lambda>x. \<not> Q x) xs))
     = length (filter P xs)"
  by (induction xs) auto

lemma close_budget_elapse:
  "closes (elapse d w) + close_pending (elapse d w) = closes w + close_pending w"
  using length_filter_split [of "\<lambda>tm. snd tm = CallOnClose" "is_due (now w + d)" "timers w"]
  by (simp add: closes_elapse close_pending_def elapse_fields)

subsection \<open>Invariants along a run\<close>

lemma run_invariant:
  assumes step: "\<And>ev w w'. P w \<Longrightarrow> step h ev w = Some w' \<Longrightarrow> P w'"
  shows "P w \<Longrightarrow> run h w evs = Some w' \<Longrightarrow> P w'"
proof (induction evs arbitrary: w)
  case Nil
  then show ?case by simp
next
  case (Cons ev evs)
  then show ?case by (auto split: option.splits dest: step)
qed

lemma never_ready_mount: "never_ready mount"
  by (simp add: never_ready_def mount_def initial_def prim_defs)

lemma never_ready_step:
  assumes "never_ready w" "step h ev w = Some w'"
  shows "never_ready w'"
proof (cases ev)
  case (Settle res)
  with assms show ?thesis
    by (cases res)
       (auto simp: never_ready_def flow_defs prim_defs split: if_splits)
next
  case (Elapse d)
  with assms show ?thesis
    by (auto simp: never_ready_def elapse_fields elapse_effects)
next
  case ClickClose
  with assms show ?thesis
    by (auto simp: never_ready_def render_def prim_defs split: if_splits)
next
  case ClickRetry
  with assms show ?thesis
    by (auto simp: never_ready_def render_def retry_onClick_def prim_defs split: if_splits)
next
  case (ClickRestart f)
  with assms show ?thesis
    by (auto simp: never_ready_def render_def split: if_splits)
qed

lemma never_ready_run: "run h mount evs = Some w \<Longrightarrow> never_ready w"
  by (rule run_invariant [where P = never_ready and h = h and w = mount and evs = evs])
     (auto intro: never_ready_step never_ready_mount)

lemma progress_step:
  assumes "downloadProgress w = 0 \<or> downloadProgress w = 100" "step h ev w = Some w'"
  shows "downloadProgress w' = 0 \<or> downloadProgress w' = 100"
proof (cases ev)
  case (Settle res)
  with assms show ?thesis
    by (cases res)
       (auto simp: checkAndDownload_resume_def try_block_def catch_block_def Let_def prim_defs
             split: if_splits option.splits)
next
  case (Elapse d)
  with assms show ?thesis by (auto simp: elapse_fields)
next
  case ClickClose
  with assms show ?thesis by (auto simp: render_def prim_defs split: if_splits)
next
  case ClickRetry
  with assms show ?thesis by (auto simp: render_def retry_onClick_def prim_defs split: if_splits)
next
  case (ClickRestart f)
  with assms show ?thesis
    by (auto simp: render_def handleRestart_def prim_defs Let_def split: if_splits option.splits)
qed

lemma progress_run:
  assumes "run h mount evs = Some w"
  shows "downloadProgress w = 0 \<or> downloadProgress w = 100"
proof (rule run_invariant [where P = "\<lambda>w. downloadProgress w = 0 \<or> downloadProgress w = 100"
          and h = h and w = mount and evs = evs])
  show "downloadProgress mount = 0 \<or> downloadProgress mount = 100"
    by (simp add: mount_def initial_def prim_defs)
  show "run h mount evs = Some w" by (rule assms)
qed (rule progress_step)

lemma latch_inv_mount: "latch_inv mount"
  by (simp add: latch_inv_def show_pending_def mount_def initial_def prim_defs)

lemma latch_inv_step:
  assumes "latch_inv w" "step h ev w = Some w'"
  shows "latch_inv w'"
proof (cases ev)
  case (Settle res)
  with assms show ?thesis
    by (cases res)
       (auto simp: latch_inv_def show_pending_def flow_defs prim_defs split: if_splits)
next
  case (Elapse d)
  with assms show_pending_elapse [of d w] isVisible_elapse_cases [of d w] show ?thesis
    by (auto simp: latch_inv_def elapse_fields)
next
  case ClickClose
  with assms show ?thesis
    by (auto simp: latch_inv_def show_pending_def render_def prim_defs split: if_splits)
next
  case ClickRetry
  with assms show ?thesis
    by (auto simp: latch_inv_def show_pending_def render_def retry_onClick_def prim_defs split: if_splits)
next
  case (ClickRestart f)
  with assms show ?thesis
    by (auto simp: latch_inv_def show_pending_def render_def handleRestart_def prim_defs Let_def
             split: if_splits option.splits)
qed

lemma latch_inv_run: "run h mount evs = Some w \<Longrightarrow> latch_inv w"
  by (rule run_invariant [where P = latch_inv and h = h and w = mount and evs = evs])
     (auto intro: latch_inv_step latch_inv_mount)

text \<open>Whenever a check is pending, the widget is as it was at mount in all that matters.\<close>

lemma pending_check_state:
  assumes "run h mount evs = Some w" "0 < awaiting w"
  shows "awaiting w = 1" "updateState w = St_checking" "\<not> downloadStarted w"
        "\<not> isVisible w" "\<not> show_pending w"
  using latch_inv_run [OF assms(1)] assms(2) by (auto simp: latch_inv_def)

lemma dormant_step:
  assumes "dormant w" "step h ev w = Some w'"
  shows "dormant w' \<and> toasts w' = toasts w"
proof (cases ev)
  case (Elapse d)
  with assms show_pending_elapse [of d w] isVisible_elapse_cases [of d w] show ?thesis
    by (auto simp: dormant_def elapse_fields toasts_elapse)
qed (use assms in \<open>auto simp: dormant_def render_def\<close>)

lemma dormant_run:
  assumes "dormant w" "run h w evs = Some w'"
  shows "dormant w' \<and> toasts w' = toasts w"
proof (rule run_invariant [where P = "\<lambda>v. dormant v \<and> toasts v = toasts w"
          and h = h and w = w and evs = evs])
  show "dormant w \<and> toasts w = toasts w" using assms(1) by simp
  show "run h w evs = Some w'" by (rule assms)
qed (use dormant_step in metis)

lemma run_snoc:
  "run h w (evs @ [ev]) = (case run h w evs of None \<Rightarrow> None | Some w' \<Rightarrow> step h ev w')"
  by (induction evs arbitrary: w) (auto split: option.splits)

lemma counts_snoc:
  "resolved (evs @ [ev]) = resolved evs + (if resolves ev then 1 else 0)"
  "close_clicks (evs @ [ev]) = close_clicks evs + (if ev = ClickClose then 1 else 0)"
  "since_close (evs @ [ev]) = since_close_step (since_close evs) ev"
  by (simp_all add: resolved_def close_clicks_def since_close_def)

lemma close_inv_mount: "close_inv [] mount"
  by (simp add: close_inv_def closes_def close_pending_def resolved_def close_clicks_def
        since_close_def mount_def initial_def prim_defs)

lemma close_inv_step:
  assumes "latch_inv w" "close_inv evs w" "step h ev w = Some w'"
  shows "close_inv (evs @ [ev]) w'"
proof -
  have "list_all (\<lambda>tm. now w < fst tm \<and> fst tm + since_close evs \<le> now w + 400) (timers w)"
    using assms(2) by (simp add: close_inv_def)
  then have fresh: "list_all (\<lambda>tm. now w < fst tm \<and> fst tm \<le> now w + 400) (timers w)"
    by (auto simp: list_all_iff)
  show ?thesis
  proof (cases ev)
    case (Elapse d)
    with assms have w': "w' = elapse d w" by simp
    have "list_all (\<lambda>tm. now w + d < fst tm \<and> fst tm + (since_close evs + d) \<le> now w + d + 400)
            (filter (\<lambda>tm. \<not> is_due (now w + d) tm) (timers w))"
      using assms(2) by (auto simp: close_inv_def list_all_iff is_due_def)
    with assms(2) close_budget_elapse [of d w] show ?thesis
      by (simp add: close_inv_def w' Elapse elapse_fields counts_snoc)
  next
    case (Settle res)
    show ?thesis
    proof (cases res)
      case (Rejected e)
      with Settle assms show ?thesis
        by (auto simp: close_inv_def counts_snoc closes_def close_pending_def latch_inv_def
              flow_defs prim_defs split: if_splits)
    next
      case (Fulfilled info)
      with Settle assms fresh show ?thesis
        by (auto simp: close_inv_def counts_snoc closes_def close_pending_def latch_inv_def
              flow_defs prim_defs split: if_splits)
    qed
  next
    case ClickClose
    with assms fresh show ?thesis
      by (auto simp: close_inv_def counts_snoc closes_def close_pending_def
            render_def prim_defs split: if_splits)
  next
    case ClickRetry
    with assms show ?thesis
      by (auto simp: close_inv_def counts_snoc closes_def close_pending_def
            render_def retry_onClick_def prim_defs split: if_splits)
  next
    case (ClickRestart f)
    with assms show ?thesis
      by (auto simp: close_inv_def counts_snoc closes_def close_pending_def
            render_def handleRestart_def prim_defs Let_def split: if_splits option.splits)
  qed
qed

lemma close_inv_run: "run h mount evs = Some w \<Longrightarrow> close_inv evs w"
proof (induction evs arbitrary: w rule: rev_induct)
  case Nil
  then show ?case by (simp add: close_inv_mount)
next
  case (snoc ev evs)
  from snoc.prems obtain w0 where r: "run h mount evs = Some w0" and s: "step h ev w0 = Some w"
    by (auto simp: run_snoc split: option.splits)
  from close_inv_step [OF latch_inv_run [OF r] snoc.IH [OF r] s] show ?case .
qed

lemma close_inv_settled:
  assumes "close_inv evs w" "400 \<le> since_close evs"
  shows "close_pending w = 0"
proof -
  have "timers w = []"
  proof (cases "timers w")
    case (Cons tm ts)
    with assms show ?thesis by (auto simp: close_inv_def)
  qed simp
  then show ?thesis by (simp add: close_pending_def)
qed

section \<open>An update is available on a native host\<close>

text \<open>
  C1, as stated, fails in its order of events. On a native host let the check made at mount
  resolve with an update: at that very step the toast is shown and \<open>handleClose\<close> has run (the
  closing flag is set, the close timer queued), while the visibility flag is false; it is
  still false 99 ms later and turns true at 100 ms. The toast and the close sequence come
  before the flag is set, not after it.
\<close>

theorem toast_after_entrance_counterexample:
  "map_option toasts (run tauri_host mount [Settle (Fulfilled update_available)])
     = Some [ShowToast ''update_notification.toast.not_ready'' ''info'']
   \<and> map_option isClosing (run tauri_host mount [Settle (Fulfilled update_available)]) = Some True
   \<and> map_option timers (run tauri_host mount [Settle (Fulfilled update_available)])
     = Some [(100, SetIsVisibleTrue), (400, CallOnClose)]
   \<and> map_option isVisible (run tauri_host mount [Settle (Fulfilled update_available)]) = Some False
   \<and> map_option isVisible
       (run tauri_host mount [Settle (Fulfilled update_available), Elapse 99]) = Some False
   \<and> map_option isVisible
       (run tauri_host mount [Settle (Fulfilled update_available), Elapse 100]) = Some True"
  by (simp add: eval_defs)

text \<open>
  C1, amended. Take any run from mount that leaves a check pending, on a host where
  \<open>isTauri()\<close> holds, and let the check resolve with \<open>has_update = true\<close>. In that same step
  the state becomes downloading, the entrance timer is queued 100 ms ahead, one console
  warning and exactly one toast of kind info (the not-ready text, or the fallback when the
  translation is empty) are emitted, and the routine ends in \<open>handleClose\<close>, which sets the
  closing flag, clears the visibility flag and queues the close timer 400 ms ahead. Only
  afterwards is the visibility flag set: \<open>d\<close> ms later it is true exactly when \<open>d \<ge> 100\<close>. The
  closing flag is set all along, so the rendered element never carries the visible classes.
\<close>

theorem native_update_disabled_path:
  assumes "run h mount evs = Some w" "0 < awaiting w" "has_update info" "isTauri h"
  shows "\<exists>w' w''. step h (Settle (Fulfilled info)) w = Some w'
     \<and> w' = handleClose w''
     \<and> updateState w'' = St_downloading \<and> updateState w' = St_downloading
     \<and> effects w' = effects w @
          [ConsoleWarn ''Native updater disabled or returned null'',
           ShowToast (or_else (translate h ''update_notification.toast.not_ready'')
                              ''Auto-update is disabled'') ''info'']
     \<and> timers w' = timers w @ [(now w + 100, SetIsVisibleTrue), (now w + 400, CallOnClose)]
     \<and> isClosing w' \<and> \<not> isVisible w'
     \<and> isVisible (elapse d w') = (100 \<le> d)
     \<and> isClosing (elapse d w')
     \<and> (\<exists>v. render h (elapse d w') = Some v \<and> \<not> shown v)"
proof -
  note st = pending_check_state [OF assms(1,2)]
  let ?w'' = "showToast (or_else (translate h ''update_notification.toast.not_ready'')
                                 ''Auto-update is disabled'') ''info''
               (emit (ConsoleWarn ''Native updater disabled or returned null'')
                 (setTimeout SetIsVisibleTrue 100
                   (w\<lparr>awaiting := awaiting w - 1, updateInfo := Some info,
                      downloadStarted := True, updateState := St_downloading\<rparr>)))"
  let ?w' = "handleClose ?w''"
  have s: "step h (Settle (Fulfilled info)) w = Some ?w'"
    using assms st by (simp add: flow_defs)
  have t: "timers ?w' = timers w @ [(now w + 100, SetIsVisibleTrue), (now w + 400, CallOnClose)]"
    by (simp add: prim_defs)
  have n: "now ?w' = now w" "\<not> isVisible ?w'"
    by (simp_all add: prim_defs)
  have "\<forall>tm \<in> set (timers w). snd tm \<noteq> SetIsVisibleTrue"
    using st(5) by (force simp: show_pending_def)
  with t n have v: "isVisible (elapse d ?w') = (100 \<le> d)"
    by (rule entrance_after_delay)
  have e: "effects ?w' = effects w @
          [ConsoleWarn ''Native updater disabled or returned null'',
           ShowToast (or_else (translate h ''update_notification.toast.not_ready'')
                              ''Auto-update is disabled'') ''info'']"
    by (simp add: prim_defs)
  have u: "updateState ?w'' = St_downloading" "updateState ?w' = St_downloading" "isClosing ?w'"
    by (simp_all add: prim_defs)
  have c: "isClosing (elapse d ?w')"
    using u(3) by (simp add: elapse_fields)
  have "\<exists>v. render h (elapse d ?w') = Some v \<and> \<not> shown v"
    using c u(2) by (simp add: render_def elapse_fields)
  with s t n v e u c show ?thesis by blast
qed

theorem native_update_disabled_path_witness:
  "\<exists>w'. step tauri_host (Settle (Fulfilled update_available)) mount = Some w'
     \<and> updateState w' = St_downloading \<and> isClosing w' \<and> \<not> isVisible w'
     \<and> timers w' = [(100, SetIsVisibleTrue), (400, CallOnClose)]
     \<and> effects w' = [Invoke ''check_for_updates'',
                      ConsoleWarn ''Native updater disabled or returned null'',
                      ShowToast ''update_notification.toast.not_ready'' ''info'']
     \<and> isVisible (elapse 100 w') \<and> isClosing (elapse 100 w')
     \<and> (\<exists>v. render tauri_host (elapse 100 w') = Some v \<and> \<not> shown v)"
proof -
  have h: "run tauri_host mount [] = Some mount" "0 < awaiting mount"
    "has_update update_available" "isTauri tauri_host"
    by (simp_all add: example_defs prim_defs)
  from native_update_disabled_path [OF h, of 100] show ?thesis
    by (auto simp: example_defs prim_defs or_else_def)
qed

section \<open>The parent's close callback\<close>

text \<open>
  C2, as stated, fails. On a native host let the check reject with message "offline" and let
  a second pass with no click: \<open>onClose\<close> has been called zero times, the state is error (not
  none), no timer is queued and no check is pending, so nothing more will happen by itself.
\<close>

theorem onClose_exactly_once_counterexample:
  "map_option closes
     (run tauri_host mount [Settle (Rejected (ErrorObject ''offline'')), Elapse 1000]) = Some 0
   \<and> map_option updateState
     (run tauri_host mount [Settle (Rejected (ErrorObject ''offline'')), Elapse 1000]) = Some St_error
   \<and> map_option timers
     (run tauri_host mount [Settle (Rejected (ErrorObject ''offline'')), Elapse 1000]) = Some []
   \<and> map_option awaiting
     (run tauri_host mount [Settle (Rejected (ErrorObject ''offline'')), Elapse 1000]) = Some 0"
  by (simp add: eval_defs)

text \<open>
  Nor is one call an upper bound once the check has thrown: \<open>handleClose\<close> queues a call each
  time it runs, and the close button stays rendered while the state is error.
\<close>

lemma close_twice_example:
  "map_option closes
     (run tauri_host mount
        [Settle (Rejected (ErrorObject ''offline'')), ClickClose, ClickClose, Elapse 400]) = Some 2"
  by (simp add: eval_defs)

text \<open>
  C2, amended. In every run from mount, whatever the check outcomes, the time that passes and
  the clicks: the calls of \<open>onClose\<close> made plus those still queued behind the 400 ms closing
  delay equal the number of checks that resolved with an \<open>UpdateInfo\<close> (at most one, at mount
  or after retries) plus the number of close clicks, and once 400 ms have passed since the
  last of these nothing is queued and the calls made are that many. So when a check has
  resolved and close was never clicked,
  \<open>onClose\<close> has been called at most once, and exactly once from 400 ms after the resolution;
  while no check has resolved and close was not clicked it has not been called; and the
  state is never none.
\<close>

theorem onClose_accounting:
  assumes "run h mount evs = Some w"
  shows "closes w + close_pending w = resolved evs + close_clicks evs
         \<and> resolved evs \<le> 1
         \<and> (400 \<le> since_close evs \<longrightarrow>
               close_pending w = 0 \<and> closes w = resolved evs + close_clicks evs)
         \<and> (resolved evs = 1 \<and> close_clicks evs = 0 \<longrightarrow>
               closes w \<le> 1 \<and> (400 \<le> since_close evs \<longrightarrow> closes w = 1))
         \<and> (resolved evs = 0 \<and> close_clicks evs = 0 \<longrightarrow> closes w = 0)
         \<and> updateState w \<noteq> St_none"
proof -
  note i = close_inv_run [OF assms]
  have a: "closes w + close_pending w = resolved evs + close_clicks evs"
    and b: "resolved evs \<le> 1"
    using i by (auto simp: close_inv_def)
  have c: "close_pending w = 0" if "400 \<le> since_close evs"
    using i that by (rule close_inv_settled)
  have n: "updateState w \<noteq> St_none"
    using never_ready_run [OF assms] by (simp add: never_ready_def)
  from a b c n show ?thesis by auto
qed

theorem onClose_accounting_witness:
  "\<exists>w. run tauri_host mount
          [Elapse 50, Settle (Rejected (ErrorObject ''offline'')), ClickRetry, Elapse 20,
           Settle (Fulfilled update_available), Elapse 400] = Some w
     \<and> closes w = 1 \<and> close_pending w = 0 \<and> updateState w \<noteq> St_none"
proof -
  let ?evs = "[Elapse 50, Settle (Rejected (ErrorObject ''offline'')), ClickRetry, Elapse 20,
               Settle (Fulfilled update_available), Elapse 400]"
  have "\<exists>w. run tauri_host mount ?evs = Some w"
    by (simp add: example_defs flow_defs prim_defs render_def retry_onClick_def elapse_fields)
  then obtain w where r: "run tauri_host mount ?evs = Some w" ..
  have c: "resolved ?evs = 1" "close_clicks ?evs = 0" "400 \<le> since_close ?evs"
    by (simp_all add: count_defs)
  from onClose_accounting [OF r] c r show ?thesis by auto
qed

section \<open>The state none\<close>

text \<open>
  C3, as stated, fails. With no update available the state after the check is checking, on a
  browser host with an update it is checking, on a native host with an update (the download
  value being null) it is downloading; in none of them is it none, and the widget still
  renders an element.
\<close>

theorem none_is_terminal_counterexample:
  "map_option updateState (run tauri_host mount [Settle (Fulfilled up_to_date)]) = Some St_checking
   \<and> map_option updateState (run browser_host mount [Settle (Fulfilled update_available)]) = Some St_checking
   \<and> map_option updateState (run tauri_host mount [Settle (Fulfilled update_available)]) = Some St_downloading
   \<and> Option.bind (run tauri_host mount [Settle (Fulfilled up_to_date)]) (render tauri_host) \<noteq> None"
  by (simp add: eval_defs)

text \<open>
  C3, amended. In no run from mount is the state none, so the widget always renders an
  element; \<open>render\<close> returns null exactly when the state is none. A check that resolves leaves
  the state checking when there is no update or the host is not native, and there \<open>onClose\<close>
  is called in that step (one more call, no timer); it leaves the state downloading when an
  update is available on a native host, and there no call is made in that step: the entrance
  timer and, through \<open>handleClose\<close>, the timer that calls \<open>onClose\<close> 400 ms later are queued.
\<close>

theorem none_state_never_entered:
  assumes "run h mount evs = Some w"
  shows "updateState w \<noteq> St_none \<and> render h w \<noteq> None
         \<and> (render h v = None) = (updateState v = St_none)
         \<and> (\<forall>info w'. step h (Settle (Fulfilled info)) w = Some w' \<longrightarrow>
               updateState w' = (if has_update info \<and> isTauri h then St_downloading else St_checking)
               \<and> closes w' = closes w + (if has_update info \<and> isTauri h then 0 else 1)
               \<and> timers w' = timers w @
                    (if has_update info \<and> isTauri h
                     then [(now w + 100, SetIsVisibleTrue), (now w + 400, CallOnClose)] else []))"
proof -
  have n: "updateState w \<noteq> St_none"
    using never_ready_run [OF assms] by (simp add: never_ready_def)
  have r: "(render h v = None) = (updateState v = St_none)" for v
    by (simp add: render_def)
  have "updateState w' = (if has_update info \<and> isTauri h then St_downloading else St_checking)
        \<and> closes w' = closes w + (if has_update info \<and> isTauri h then 0 else 1)
        \<and> timers w' = timers w @
             (if has_update info \<and> isTauri h
              then [(now w + 100, SetIsVisibleTrue), (now w + 400, CallOnClose)] else [])"
    if s: "step h (Settle (Fulfilled info)) w = Some w'" for info w'
  proof -
    from s have a: "0 < awaiting w" by (auto split: if_splits)
    note st = pending_check_state [OF assms a]
    from s a st show ?thesis
      by (auto simp: flow_defs prim_defs closes_def split: if_splits)
  qed
  with n r show ?thesis by blast
qed

theorem none_state_never_entered_witness:
  "updateState mount \<noteq> St_none \<and> render tauri_host mount \<noteq> None
   \<and> (\<exists>w'. step tauri_host (Settle (Fulfilled up_to_date)) mount = Some w'
          \<and> updateState w' = St_checking \<and> closes w' = 1 \<and> timers w' = [])
   \<and> (\<exists>w'. step tauri_host (Settle (Fulfilled update_available)) mount = Some w'
          \<and> updateState w' = St_downloading \<and> closes w' = 0
          \<and> timers w' = [(100, SetIsVisibleTrue), (400, CallOnClose)])"
proof -
  have h: "run tauri_host mount [] = Some mount" by simp
  have a: "\<exists>w'. step tauri_host (Settle (Fulfilled up_to_date)) mount = Some w'"
    by (simp add: example_defs flow_defs prim_defs)
  have b: "\<exists>w'. step tauri_host (Settle (Fulfilled update_available)) mount = Some w'"
    by (simp add: example_defs flow_defs prim_defs)
  have c: "\<not> has_update up_to_date" "has_update update_available" "isTauri tauri_host"
    "closes mount = 0" "timers mount = []" "now mount = 0"
    by (simp_all add: example_defs closes_def prim_defs)
  from a obtain w1 where s1: "step tauri_host (Settle (Fulfilled up_to_date)) mount = Some w1" ..
  from b obtain w2 where s2: "step tauri_host (Settle (Fulfilled update_available)) mount = Some w2" ..
  note t = none_state_never_entered [OF h, of initial]
  from t have q: "\<And>info w'. step tauri_host (Settle (Fulfilled info)) mount = Some w' \<Longrightarrow>
      updateState w' = (if has_update info \<and> isTauri tauri_host then St_downloading else St_checking)
      \<and> closes w' = closes mount + (if has_update info \<and> isTauri tauri_host then 0 else 1)
      \<and> timers w' = timers mount @
           (if has_update info \<and> isTauri tauri_host
            then [(now mount + 100, SetIsVisibleTrue), (now mount + 400, CallOnClose)] else [])"
    by blast
  from q [OF s1] c have "updateState w1 = St_checking \<and> closes w1 = 1 \<and> timers w1 = []"
    by simp
  moreover from q [OF s2] c have "updateState w2 = St_downloading \<and> closes w2 = 0
      \<and> timers w2 = [(100, SetIsVisibleTrue), (400, CallOnClose)]"
    by simp
  moreover from t have "updateState mount \<noteq> St_none \<and> render tauri_host mount \<noteq> None"
    by blast
  ultimately show ?thesis using s1 s2 by blast
qed

section \<open>The check call throws\<close>

text \<open>
  C4. When the awaited \<open>check_for_updates\<close> call rejects with an \<open>Error\<close> whose message is
  \<open>M\<close>, the routine completes normally (its own promise is fulfilled, as it is for every way
  the call can settle, so nothing reaches the parent as an exception), the state becomes
  error, and what it does to the outside is exactly one console line and one toast of kind
  error whose text contains \<open>M\<close>.
\<close>

theorem check_throws_error_toast:
  "(\<exists>w'. checkAndDownload_resume h (Rejected (ErrorObject M)) w = Inr w'
       \<and> updateState w' = St_error
       \<and> effects w' = effects w @
            [ConsoleErrorMsg ''Auto update failed:'' M,
             ShowToast (translate h ''update_notification.toast.failed'' @ '': '' @ M) ''error''])
   \<and> sublist M (translate h ''update_notification.toast.failed'' @ '': '' @ M)
   \<and> (\<exists>w'. checkAndDownload_resume h res w = Inr w')"
proof -
  have "sublist M (translate h ''update_notification.toast.failed'' @ '': '' @ M)"
    by (metis sublist_appendI append.assoc append_Nil2)
  moreover have "\<exists>w'. checkAndDownload_resume h res w = Inr w'"
    by (simp add: checkAndDownload_resume_def split: sum.splits prod.splits)
  ultimately show ?thesis
    by (simp add: flow_defs prim_defs)
qed

section \<open>No update is available\<close>

text \<open>
  C5. Take any run from mount that leaves a check pending, and let the check resolve with
  \<open>has_update = false\<close>. The routine calls \<open>onClose\<close> and nothing else (no timer is set); the
  visibility flag is false before, and false after whatever events follow; and the state
  stays checking, so downloading, ready and error are not entered.
\<close>

theorem no_update_closes_unseen:
  assumes "run h mount evs0 = Some w0" "\<not> has_update info"
    and "run h w0 (Settle (Fulfilled info) # evs) = Some w"
  shows "(\<exists>w1. step h (Settle (Fulfilled info)) w0 = Some w1
            \<and> effects w1 = effects w0 @ [OnClose] \<and> timers w1 = timers w0)
         \<and> \<not> isVisible w0 \<and> \<not> isVisible w \<and> updateState w = St_checking"
proof -
  from assms(3) have a: "0 < awaiting w0" by (auto split: if_splits)
  note st = pending_check_state [OF assms(1) a]
  let ?w1 = "onClose (w0\<lparr>awaiting := awaiting w0 - 1\<rparr>)"
  have s: "step h (Settle (Fulfilled info)) w0 = Some ?w1"
    using a assms(2) by (simp add: flow_defs)
  have d: "dormant ?w1"
    using st by (simp add: dormant_def show_pending_def prim_defs)
  from assms(3) s have "run h ?w1 evs = Some w" by simp
  from dormant_run [OF d this] have "dormant w" ..
  with s st(4) show ?thesis by (simp add: dormant_def prim_defs)
qed

theorem no_update_closes_unseen_witness:
  "\<exists>w. run tauri_host mount [Settle (Fulfilled up_to_date), Elapse 500] = Some w
     \<and> \<not> isVisible w \<and> updateState w = St_checking"
proof -
  have h: "run tauri_host mount [] = Some mount" "\<not> has_update up_to_date"
    by (simp_all add: example_defs)
  have "\<exists>w. run tauri_host mount [Settle (Fulfilled up_to_date), Elapse 500] = Some w"
    by (simp add: example_defs flow_defs prim_defs)
  then obtain w where r: "run tauri_host mount [Settle (Fulfilled up_to_date), Elapse 500] = Some w" ..
  from no_update_closes_unseen [OF h r] r show ?thesis by blast
qed

section \<open>An update is available outside the native host\<close>

text \<open>
  C6. Take any run from mount that leaves a check pending, on a host where \<open>isTauri()\<close> is
  false, and let the check resolve with \<open>has_update = true\<close>. The routine stores the result,
  writes one console warning and then calls \<open>onClose\<close>, and that is all it does to the
  outside; whatever events follow, the state is still checking (neither downloading nor
  error), no toast has been added, and the widget is not visible.
\<close>

theorem browser_update_closes_with_warning:
  assumes "run h mount evs0 = Some w0" "has_update info" "\<not> isTauri h"
    and "run h w0 (Settle (Fulfilled info) # evs) = Some w"
  shows "(\<exists>w1. step h (Settle (Fulfilled info)) w0 = Some w1
            \<and> effects w1 = effects w0 @
                [ConsoleWarn ''Auto update is only available in Tauri environment'', OnClose]
            \<and> updateInfo w1 = Some info)
         \<and> updateState w = St_checking \<and> toasts w = toasts w0 \<and> \<not> isVisible w"
proof -
  from assms(4) have a: "0 < awaiting w0" by (auto split: if_splits)
  note st = pending_check_state [OF assms(1) a]
  let ?w1 = "onClose (emit (ConsoleWarn ''Auto update is only available in Tauri environment'')
               (w0\<lparr>awaiting := awaiting w0 - 1, updateInfo := Some info\<rparr>))"
  have s: "step h (Settle (Fulfilled info)) w0 = Some ?w1"
    using a assms(2,3) by (simp add: flow_defs)
  have d: "dormant ?w1"
    using st by (simp add: dormant_def show_pending_def prim_defs)
  have t: "toasts ?w1 = toasts w0"
    by (simp add: toasts_def prim_defs)
  from assms(4) s have "run h ?w1 evs = Some w" by simp
  from dormant_run [OF d this] t have "dormant w" "toasts w = toasts w0" by simp_all
  with s show ?thesis by (simp add: dormant_def prim_defs)
qed

theorem browser_update_closes_with_warning_witness:
  "\<exists>w. run browser_host mount [Settle (Fulfilled update_available), Elapse 500] = Some w
     \<and> updateState w = St_checking \<and> toasts w = [] \<and> \<not> isVisible w"
proof -
  have h: "run browser_host mount [] = Some mount" "has_update update_available"
    "\<not> isTauri browser_host"
    by (simp_all add: example_defs)
  have "\<exists>w. run browser_host mount [Settle (Fulfilled update_available), Elapse 500] = Some w"
    by (simp add: example_defs flow_defs prim_defs)
  then obtain w where r: "run browser_host mount [Settle (Fulfilled update_available), Elapse 500] = Some w" ..
  have "toasts mount = []" by (simp add: toasts_def example_defs prim_defs)
  with browser_update_closes_with_warning [OF h r] r show ?thesis by auto
qed

section \<open>Retry\<close>

text \<open>
  C7. In state error the retry button is rendered, and clicking it clears the latch, puts the
  progress back to 0 and the state back to checking, and calls the command bridge's
  \<open>check_for_updates\<close> once more, leaving that call pending.
\<close>

theorem retry_restarts_check:
  assumes "updateState w = St_error"
  shows "\<exists>w'. step h ClickRetry w = Some w'
           \<and> \<not> downloadStarted w' \<and> downloadProgress w' = 0 \<and> updateState w' = St_checking
           \<and> effects w' = effects w @ [Invoke ''check_for_updates'']
           \<and> awaiting w' = awaiting w + 1
           \<and> checks w' = checks w + 1"
  using assms by (simp add: render_def retry_onClick_def prim_defs checks_def)

theorem retry_restarts_check_witness:
  "\<exists>w0 w'. run tauri_host mount [Settle (Rejected (ErrorObject ''offline''))] = Some w0
      \<and> updateState w0 = St_error \<and> checks w0 = 1
      \<and> step tauri_host ClickRetry w0 = Some w'
      \<and> \<not> downloadStarted w' \<and> downloadProgress w' = 0 \<and> updateState w' = St_checking
      \<and> awaiting w' = 1 \<and> checks w' = 2"
proof -
  let ?w0 = "catch_block tauri_host (ErrorObject ''offline'') (mount\<lparr>awaiting := 0\<rparr>)"
  have r: "run tauri_host mount [Settle (Rejected (ErrorObject ''offline''))] = Some ?w0"
    by (simp add: example_defs flow_defs prim_defs)
  have e: "updateState ?w0 = St_error"
    by (simp add: flow_defs prim_defs)
  have c: "checks ?w0 = 1" "awaiting ?w0 = 0"
    by (simp_all add: example_defs flow_defs prim_defs checks_def)
  from retry_restarts_check [OF e, of tauri_host] r e c show ?thesis
    by auto
qed

section \<open>Close\<close>

text \<open>
  C8. The close click is there in the states error and ready and runs \<open>handleClose\<close>, which
  sets the closing flag and clears the visibility flag at once, calls nothing itself (the
  effect list is unchanged), and queues the parent's callback 400 ms ahead: letting \<open>d\<close> ms
  pass after it gives the same number of \<open>onClose\<close> calls as without it when \<open>d < 400\<close>, and
  one more when \<open>d \<ge> 400\<close>.
\<close>

theorem close_is_delayed:
  "step h ClickClose w =
     (if updateState w = St_error \<or> updateState w = St_ready then Some (handleClose w) else None)
   \<and> isClosing (handleClose w) \<and> \<not> isVisible (handleClose w)
   \<and> effects (handleClose w) = effects w
   \<and> timers (handleClose w) = timers w @ [(now w + 400, CallOnClose)]
   \<and> closes (elapse d (handleClose w)) = closes (elapse d w) + (if d < 400 then 0 else 1)"
proof -
  have "step h ClickClose w =
     (if updateState w = St_error \<or> updateState w = St_ready then Some (handleClose w) else None)"
    by (simp add: render_def)
  moreover have "closes (elapse d (handleClose w)) = closes (elapse d w) + (if d < 400 then 0 else 1)"
    by (simp add: closes_elapse) (simp add: prim_defs closes_def is_due_def)
  ultimately show ?thesis by (simp add: prim_defs)
qed

section \<open>The restart prompt\<close>

text \<open>
  C9. In every run from mount the state is never ready, the progress is never 100, the
  relaunch primitive has not been called, the rendered element has no restart button, and a
  click on it is not possible.
\<close>

theorem ready_unreachable:
  assumes "run h mount evs = Some w"
  shows "updateState w \<noteq> St_ready \<and> downloadProgress w \<noteq> 100
         \<and> TauriRelaunch \<notin> set (effects w)
         \<and> (\<exists>v. render h w = Some v \<and> \<not> restart_buttons v)
         \<and> step h (ClickRestart failure) w = None"
  using never_ready_run [OF assms] by (simp add: never_ready_def render_def)

theorem ready_unreachable_witness:
  "\<exists>w. run tauri_host mount [Settle (Fulfilled update_available), Elapse 100] = Some w
     \<and> updateState w = St_downloading \<and> downloadProgress w = 0
     \<and> TauriRelaunch \<notin> set (effects w)
     \<and> (\<exists>v. render tauri_host w = Some v \<and> \<not> restart_buttons v)
     \<and> step tauri_host (ClickRestart None) w = None"
proof -
  let ?evs = "[Settle (Fulfilled update_available), Elapse 100]"
  have "\<exists>w. run tauri_host mount ?evs = Some w"
    by (simp add: example_defs flow_defs prim_defs)
  then obtain w where r: "run tauri_host mount ?evs = Some w" ..
  from r have s: "updateState w = St_downloading \<and> downloadProgress w = 0"
    by (auto simp: example_defs flow_defs prim_defs elapse_fields)
  from ready_unreachable [OF r, of None] r s show ?thesis by blast
qed

section \<open>The progress value\<close>

text \<open>
  C10. The progress starts at 0, and in every run from mount it is 0 or 100, hence within
  0 to 100 and never a value in between.
\<close>

theorem progress_zero_or_hundred:
  assumes "run h mount evs = Some w"
  shows "downloadProgress initial = 0
         \<and> (downloadProgress w = 0 \<or> downloadProgress w = 100) \<and> downloadProgress w \<le> 100"
  using progress_run [OF assms] by (auto simp: initial_def)

theorem progress_zero_or_hundred_witness:
  "\<exists>w. run tauri_host mount
          [Settle (Rejected (ErrorObject ''offline'')), ClickRetry,
           Settle (Fulfilled update_available)] = Some w
     \<and> (downloadProgress w = 0 \<or> downloadProgress w = 100) \<and> downloadProgress w \<le> 100"
proof -
  let ?evs = "[Settle (Rejected (ErrorObject ''offline'')), ClickRetry,
               Settle (Fulfilled update_available)]"
  have "\<exists>w. run tauri_host mount ?evs = Some w"
    by (simp add: example_defs flow_defs prim_defs render_def retry_onClick_def)
  then obtain w where r: "run tauri_host mount ?evs = Some w" ..
  from progress_zero_or_hundred [OF r] r show ?thesis by blast
qed

end
